theory Spec2Isabelle
  imports Main "HOL-Library.Product_Lexorder"
begin

section \<open>The Minesweeper knowledge base of \<open>minesweeper.py\<close>\<close>

text \<open>
  A cell is a pair of Python integers. A \<open>Sentence\<close> object holds a set of cells and a
  count. The objects are mutable and shared: the list \<open>self.knowledge\<close> and the pool of
  \<open>itertools.combinations\<close> hold references to the same objects. The model therefore
  keeps an explicit store \<open>heap\<close> (a reference is an index into it, a new object is
  appended) and \<open>knowledge\<close> is a list of references.

  The order in which Python iterates over a set is not fixed by the source. Every function
  that iterates over a set takes a parameter \<open>ord\<close> that ranks the elements of each
  set; the set is visited by increasing rank, each element once. Every order of visiting
  a finite set is the order of some ranking.
\<close>

type_synonym cell = "int \<times> int"

type_synonym order = "cell set \<Rightarrow> cell \<Rightarrow> nat"

definition iterate :: "order \<Rightarrow> cell set \<Rightarrow> cell list" where
  "iterate ord S = sort_key (ord S) (sorted_list_of_set S)"

record sentence =
  cells :: "cell set"
  count :: int

definition Sentence :: "cell set \<Rightarrow> int \<Rightarrow> sentence" where
  "Sentence cs n = \<lparr>cells = cs, count = n\<rparr>"

definition known_mines :: "sentence \<Rightarrow> cell set" where
  "known_mines x = (if int (card (cells x)) = count x then cells x else {})"

definition known_safes :: "sentence \<Rightarrow> cell set" where
  "known_safes x = (if count x = 0 then cells x else {})"

definition sentence_mark_mine :: "sentence \<Rightarrow> cell \<Rightarrow> sentence" where
  "sentence_mark_mine x c =
     (if c \<in> cells x then x\<lparr>cells := cells x - {c}, count := count x - 1\<rparr> else x)"

definition sentence_mark_safe :: "sentence \<Rightarrow> cell \<Rightarrow> sentence" where
  "sentence_mark_safe x c =
     (if c \<in> cells x then x\<lparr>cells := cells x - {c}\<rparr> else x)"

record ai =
  height :: int
  width :: int
  moves_made :: "cell set"
  mines :: "cell set"
  safes :: "cell set"
  knowledge :: "nat list"
  heap :: "sentence list"

definition MinesweeperAI :: "int \<Rightarrow> int \<Rightarrow> ai" where
  "MinesweeperAI h w =
     \<lparr>height = h, width = w, moves_made = {}, mines = {}, safes = {},
      knowledge = [], heap = []\<rparr>"

text \<open>The sentences of the knowledge base, in list order, as values.\<close>

definition kb :: "ai \<Rightarrow> sentence list" where
  "kb s = map (\<lambda>r. heap s ! r) (knowledge s)"

text \<open>
  \<open>list.remove(x)\<close> deletes the first item that is equal to \<open>x\<close>; for sentences
  equality is \<open>__eq__\<close>, that is equal cells and equal count. At every call site
  \<open>x\<close> has just been read from the list, so the \<open>ValueError\<close> of a missing item
  cannot occur.
\<close>

fun remove_first :: "('a \<Rightarrow> bool) \<Rightarrow> 'a list \<Rightarrow> 'a list" where
  "remove_first P [] = []"
| "remove_first P (x # xs) = (if P x then xs else x # remove_first P xs)"

definition kb_remove :: "ai \<Rightarrow> nat \<Rightarrow> ai" where
  "kb_remove s r =
     s\<lparr>knowledge := remove_first (\<lambda>q. heap s ! q = heap s ! r) (knowledge s)\<rparr>"

definition kb_append :: "ai \<Rightarrow> sentence \<Rightarrow> ai" where
  "kb_append s x =
     s\<lparr>knowledge := knowledge s @ [length (heap s)], heap := heap s @ [x]\<rparr>"

subsection \<open>\<open>mark_mine\<close> and \<open>mark_safe\<close>\<close>

text \<open>
  \<open>for sentence in self.knowledge\<close> walks the list by index and stops when the index
  reaches the current length; the body may delete from the list meanwhile.
\<close>

definition mark_mine_step :: "cell \<Rightarrow> nat \<Rightarrow> ai \<Rightarrow> ai" where
  "mark_mine_step c i s =
     (let r = knowledge s ! i;
          s1 = s\<lparr>heap := (heap s)[r := sentence_mark_mine (heap s ! r) c]\<rparr>
      in if card (cells (heap s1 ! r)) = 0 then kb_remove s1 r else s1)"

definition mark_safe_step :: "cell \<Rightarrow> nat \<Rightarrow> ai \<Rightarrow> ai" where
  "mark_safe_step c i s =
     (let r = knowledge s ! i;
          s1 = s\<lparr>heap := (heap s)[r := sentence_mark_safe (heap s ! r) c]\<rparr>
      in if card (cells (heap s1 ! r)) = 0 then kb_remove s1 r else s1)"

lemma length_remove_first: "length (remove_first P xs) \<le> length xs"
  by (induction xs) auto

lemma length_kb_remove: "length (knowledge (kb_remove s r)) \<le> length (knowledge s)"
  by (simp add: kb_remove_def length_remove_first)

lemma length_mark_mine_step:
  "length (knowledge (mark_mine_step c i s)) \<le> length (knowledge s)"
  using length_kb_remove [of "s\<lparr>heap := (heap s)[knowledge s ! i :=
      sentence_mark_mine (heap s ! (knowledge s ! i)) c]\<rparr>" "knowledge s ! i"]
  by (simp add: mark_mine_step_def Let_def)

lemma length_mark_safe_step:
  "length (knowledge (mark_safe_step c i s)) \<le> length (knowledge s)"
  using length_kb_remove [of "s\<lparr>heap := (heap s)[knowledge s ! i :=
      sentence_mark_safe (heap s ! (knowledge s ! i)) c]\<rparr>" "knowledge s ! i"]
  by (simp add: mark_safe_step_def Let_def)

function mark_mine_loop :: "cell \<Rightarrow> nat \<Rightarrow> ai \<Rightarrow> ai" where
  "mark_mine_loop c i s =
     (if i < length (knowledge s) then mark_mine_loop c (i + 1) (mark_mine_step c i s)
      else s)"
  by pat_completeness auto
termination
proof (relation "measure (\<lambda>(c, i, s). length (knowledge s) - i)")
  show "wf (measure (\<lambda>(c, i, s). length (knowledge s) - i))" by simp
next
  fix c :: cell and i :: nat and s :: ai
  assume "i < length (knowledge s)"
  with length_mark_mine_step [of c i s]
  show "((c, i + 1, mark_mine_step c i s), (c, i, s))
          \<in> measure (\<lambda>(c, i, s). length (knowledge s) - i)"
    by simp
qed

function mark_safe_loop :: "cell \<Rightarrow> nat \<Rightarrow> ai \<Rightarrow> ai" where
  "mark_safe_loop c i s =
     (if i < length (knowledge s) then mark_safe_loop c (i + 1) (mark_safe_step c i s)
      else s)"
  by pat_completeness auto
termination
proof (relation "measure (\<lambda>(c, i, s). length (knowledge s) - i)")
  show "wf (measure (\<lambda>(c, i, s). length (knowledge s) - i))" by simp
next
  fix c :: cell and i :: nat and s :: ai
  assume "i < length (knowledge s)"
  with length_mark_safe_step [of c i s]
  show "((c, i + 1, mark_safe_step c i s), (c, i, s))
          \<in> measure (\<lambda>(c, i, s). length (knowledge s) - i)"
    by simp
qed

declare mark_mine_loop.simps [simp del]
declare mark_safe_loop.simps [simp del]

definition mark_mine :: "ai \<Rightarrow> cell \<Rightarrow> ai" where
  "mark_mine s c = mark_mine_loop c 0 (s\<lparr>mines := insert c (mines s)\<rparr>)"

definition mark_safe :: "ai \<Rightarrow> cell \<Rightarrow> ai" where
  "mark_safe s c = mark_safe_loop c 0 (s\<lparr>safes := insert c (safes s)\<rparr>)"

text \<open>
  \<open>for cell in sentence.cells.copy()\<close>: the cells are read once, when the loop starts,
  and visited in the order \<open>iterate ord\<close> gives.
\<close>

definition mark_all_mines :: "order \<Rightarrow> ai \<Rightarrow> sentence \<Rightarrow> ai" where
  "mark_all_mines ord s x = foldl mark_mine s (iterate ord (cells x))"

definition mark_all_safe :: "order \<Rightarrow> ai \<Rightarrow> sentence \<Rightarrow> ai" where
  "mark_all_safe ord s x = foldl mark_safe s (iterate ord (cells x))"

subsection \<open>Neighbours\<close>

definition get_neighbors :: "ai \<Rightarrow> cell \<Rightarrow> cell list" where
  "get_neighbors s c =
     [(i, j). i \<leftarrow> [fst c - 1 .. fst c + 1], j \<leftarrow> [snd c - 1 .. snd c + 1],
              0 \<le> i \<and> i < height s \<and> 0 \<le> j \<and> j < width s \<and> (i, j) \<noteq> c]"

definition mines_in_neighbors :: "ai \<Rightarrow> cell \<Rightarrow> int" where
  "mines_in_neighbors s c = int (length (filter (\<lambda>n. n \<in> mines s) (get_neighbors s c)))"

text \<open>
  \<open>unknown_neighbors\<close> deletes from the list it is iterating over: the index moves on
  by one after each visit, whether or not the visited item was deleted.
\<close>

function unknown_loop :: "ai \<Rightarrow> nat \<Rightarrow> cell list \<Rightarrow> cell list" where
  "unknown_loop s i ns =
     (if i < length ns
      then (if ns ! i \<in> mines s \<or> ns ! i \<in> safes s
            then unknown_loop s (i + 1) (remove1 (ns ! i) ns)
            else unknown_loop s (i + 1) ns)
      else ns)"
  by pat_completeness auto
termination
  by (relation "measure (\<lambda>(s, i, ns). length ns - i)")
     (auto simp: length_remove1)

declare unknown_loop.simps [simp del]

definition unknown_neighbors :: "ai \<Rightarrow> cell \<Rightarrow> cell list" where
  "unknown_neighbors s c = unknown_loop s 0 (get_neighbors s c)"

subsection \<open>\<open>add_knowledge\<close>\<close>

lemma length_mark_mine_loop:
  "length (knowledge (mark_mine_loop c i s)) \<le> length (knowledge s)"
proof (induction c i s rule: mark_mine_loop.induct)
  case (1 c i s)
  show ?case
  proof (cases "i < length (knowledge s)")
    case True
    with "1" length_mark_mine_step [of c i s] show ?thesis
      by (simp add: mark_mine_loop.simps [of c i s])
  next
    case False
    then show ?thesis by (simp add: mark_mine_loop.simps [of c i s])
  qed
qed

lemma length_mark_safe_loop:
  "length (knowledge (mark_safe_loop c i s)) \<le> length (knowledge s)"
proof (induction c i s rule: mark_safe_loop.induct)
  case (1 c i s)
  show ?case
  proof (cases "i < length (knowledge s)")
    case True
    with "1" length_mark_safe_step [of c i s] show ?thesis
      by (simp add: mark_safe_loop.simps [of c i s])
  next
    case False
    then show ?thesis by (simp add: mark_safe_loop.simps [of c i s])
  qed
qed

lemma length_mark_mine: "length (knowledge (mark_mine s c)) \<le> length (knowledge s)"
  using length_mark_mine_loop [of c 0 "s\<lparr>mines := insert c (mines s)\<rparr>"]
  by (simp add: mark_mine_def)

lemma length_mark_safe: "length (knowledge (mark_safe s c)) \<le> length (knowledge s)"
  using length_mark_safe_loop [of c 0 "s\<lparr>safes := insert c (safes s)\<rparr>"]
  by (simp add: mark_safe_def)

lemma length_foldl_mark_mine:
  "length (knowledge (foldl mark_mine s cs)) \<le> length (knowledge s)"
proof (induction cs arbitrary: s)
  case Nil
  show ?case by simp
next
  case (Cons c cs)
  from Cons [of "mark_mine s c"] length_mark_mine [of s c] show ?case by simp
qed

lemma length_foldl_mark_safe:
  "length (knowledge (foldl mark_safe s cs)) \<le> length (knowledge s)"
proof (induction cs arbitrary: s)
  case Nil
  show ?case by simp
next
  case (Cons c cs)
  from Cons [of "mark_safe s c"] length_mark_safe [of s c] show ?case by simp
qed

text \<open>The direct-resolution pass: one visit of the sentence at index \<open>i\<close>.\<close>

definition resolve_step :: "order \<Rightarrow> nat \<Rightarrow> ai \<Rightarrow> ai" where
  "resolve_step ord i s =
     (let r = knowledge s ! i; x = heap s ! r
      in if card (cells x) = 0 \<or> count x < 0 then kb_remove s r
         else if count x = 0 then mark_all_safe ord s x
         else if count x = int (card (cells x)) then mark_all_mines ord s x
         else s)"

lemma length_resolve_step:
  "length (knowledge (resolve_step ord i s)) \<le> length (knowledge s)"
  by (simp add: resolve_step_def Let_def mark_all_safe_def mark_all_mines_def
      length_kb_remove length_foldl_mark_mine length_foldl_mark_safe)

function resolve_loop :: "order \<Rightarrow> nat \<Rightarrow> ai \<Rightarrow> ai" where
  "resolve_loop ord i s =
     (if i < length (knowledge s) then resolve_loop ord (i + 1) (resolve_step ord i s)
      else s)"
  by pat_completeness auto
termination
proof (relation "measure (\<lambda>(ord, i, s). length (knowledge s) - i)")
  show "wf (measure (\<lambda>(ord, i, s). length (knowledge s) - i))" by simp
next
  fix ord :: order and i :: nat and s :: ai
  assume "i < length (knowledge s)"
  with length_resolve_step [of ord i s]
  show "((ord, i + 1, resolve_step ord i s), (ord, i, s))
          \<in> measure (\<lambda>(ord, i, s). length (knowledge s) - i)"
    by simp
qed

declare resolve_loop.simps [simp del]

text \<open>
  \<open>itertools.combinations(self.knowledge, 2)\<close> copies the list of references when it is
  called and yields the pairs of positions \<open>i < j\<close> in lexicographic order. The two
  sentences of a pair are read from the store when the pair is visited.
\<close>

fun combinations2 :: "'a list \<Rightarrow> ('a \<times> 'a) list" where
  "combinations2 [] = []"
| "combinations2 (x # xs) = map (Pair x) xs @ combinations2 xs"

definition infer :: "order \<Rightarrow> ai \<Rightarrow> sentence \<Rightarrow> sentence \<Rightarrow> ai" where
  "infer ord s small big =
     (let new_sentence = Sentence (cells big - cells small) (count big - count small)
      in if new_sentence \<notin> set (kb s)
         then (if count new_sentence = 0 then mark_all_safe ord s new_sentence
               else kb_append s new_sentence)
         else s)"

definition combine_step :: "order \<Rightarrow> ai \<Rightarrow> nat \<times> nat \<Rightarrow> ai" where
  "combine_step ord s p =
     (let sentence1 = heap s ! fst p; sentence2 = heap s ! snd p
      in if card (cells sentence1) = card (cells sentence2) then s
         else if cells sentence1 \<subseteq> cells sentence2 then infer ord s sentence1 sentence2
         else if cells sentence2 \<subseteq> cells sentence1 then infer ord s sentence2 sentence1
         else s)"

text \<open>
  The first lines of \<open>add_knowledge\<close>: the move is recorded, the cell is marked safe and
  the sentence about its neighbours is appended.
\<close>

definition new_sentence_for :: "ai \<Rightarrow> cell \<Rightarrow> int \<Rightarrow> sentence" where
  "new_sentence_for s c n =
     Sentence (set (unknown_neighbors s c)) (n - mines_in_neighbors s c)"

definition observe :: "ai \<Rightarrow> cell \<Rightarrow> int \<Rightarrow> ai" where
  "observe s c n =
     (let s1 = s\<lparr>moves_made := insert c (moves_made s)\<rparr>;
          s2 = mark_safe s1 c
      in kb_append s2 (new_sentence_for s2 c n))"

definition resolve :: "order \<Rightarrow> ai \<Rightarrow> ai" where
  "resolve ord s = resolve_loop ord 0 s"

definition combine :: "order \<Rightarrow> ai \<Rightarrow> ai" where
  "combine ord s = foldl (combine_step ord) s (combinations2 (knowledge s))"

definition add_knowledge :: "order \<Rightarrow> ai \<Rightarrow> cell \<Rightarrow> int \<Rightarrow> ai" where
  "add_knowledge ord s c n = combine ord (resolve ord (observe s c n))"

subsection \<open>Choosing a move\<close>

text \<open>
  Both functions only read the state; they return it next to their result so that this
  can be stated.
\<close>

definition make_safe_move :: "order \<Rightarrow> ai \<Rightarrow> cell option \<times> ai" where
  "make_safe_move ord s =
     (find (\<lambda>c. c \<notin> moves_made s \<and> c \<notin> mines s) (iterate ord (safes s)), s)"

text \<open>
  \<open>random.randint(a, b)\<close> returns some integer of \<open>a..b\<close> and raises \<open>ValueError\<close> when
  the range is empty. The generator is a stream \<open>rnd\<close> of natural numbers; each number
  drawn is reduced into the range, so every value of the range can come out.
\<close>

datatype error = ValueError

definition randint :: "int \<Rightarrow> int \<Rightarrow> nat \<Rightarrow> error + int" where
  "randint a b x = (if b < a then Inl ValueError else Inr (a + int x mod (b - a + 1)))"

text \<open>
  The loop of \<open>make_random_move\<close>: \<open>n\<close> attempts are left, \<open>k\<close> attempts were made.
  The result comes with the number of attempts made.
\<close>

fun random_loop :: "(nat \<Rightarrow> nat) \<Rightarrow> ai \<Rightarrow> nat \<Rightarrow> nat \<Rightarrow> (error + cell option) \<times> nat" where
  "random_loop rnd s 0 k = (Inr None, k)"
| "random_loop rnd s (Suc n) k =
     (case randint 0 (height s - 1) (rnd (2 * k)) of
        Inl e \<Rightarrow> (Inl e, Suc k)
      | Inr i \<Rightarrow>
         (case randint 0 (width s - 1) (rnd (2 * k + 1)) of
            Inl e \<Rightarrow> (Inl e, Suc k)
          | Inr j \<Rightarrow>
             if (i, j) \<notin> moves_made s \<and> (i, j) \<notin> mines s then (Inr (Some (i, j)), Suc k)
             else random_loop rnd s n (Suc k)))"

definition make_random_move :: "(nat \<Rightarrow> nat) \<Rightarrow> ai \<Rightarrow> (error + cell option) \<times> ai" where
  "make_random_move rnd s =
     (fst (random_loop rnd s (nat (height s * width s * 10)) 0), s)"

definition random_attempts :: "(nat \<Rightarrow> nat) \<Rightarrow> ai \<Rightarrow> nat" where
  "random_attempts rnd s = snd (random_loop rnd s (nat (height s * width s * 10)) 0)"

subsection \<open>Sessions\<close>

text \<open>The public operations on the AI state, and a session as a list of them.\<close>

datatype operation =
    AddKnowledge cell int
  | MarkMine cell
  | MarkSafe cell
  | SafeMove
  | RandomMove

fun apply_operation :: "order \<Rightarrow> (nat \<Rightarrow> nat) \<Rightarrow> ai \<Rightarrow> operation \<Rightarrow> ai" where
  "apply_operation ord rnd s (AddKnowledge c n) = add_knowledge ord s c n"
| "apply_operation ord rnd s (MarkMine c) = mark_mine s c"
| "apply_operation ord rnd s (MarkSafe c) = mark_safe s c"
| "apply_operation ord rnd s SafeMove = snd (make_safe_move ord s)"
| "apply_operation ord rnd s RandomMove = snd (make_random_move rnd s)"

definition session :: "order \<Rightarrow> (nat \<Rightarrow> nat) \<Rightarrow> ai \<Rightarrow> operation list \<Rightarrow> ai" where
  "session ord rnd s ops = foldl (apply_operation ord rnd) s ops"

text \<open>
  A game: the board reports, for each revealed cell, the number of mines next to it.
  \<open>nearby_mines\<close> is the method of the class \<open>Minesweeper\<close>; \<open>play\<close> reveals the given
  cells in turn on a new AI and passes each truthful count to \<open>add_knowledge\<close>.
\<close>

definition nearby_mines :: "int \<Rightarrow> int \<Rightarrow> cell set \<Rightarrow> cell \<Rightarrow> int" where
  "nearby_mines h w board_mines c =
     int (length [(i, j). i \<leftarrow> [fst c - 1 .. fst c + 1], j \<leftarrow> [snd c - 1 .. snd c + 1],
                          (i, j) \<noteq> c \<and> 0 \<le> i \<and> i < h \<and> 0 \<le> j \<and> j < w \<and>
                          (i, j) \<in> board_mines])"

definition play :: "order \<Rightarrow> int \<Rightarrow> int \<Rightarrow> cell set \<Rightarrow> cell list \<Rightarrow> ai" where
  "play ord h w board_mines cs =
     foldl (\<lambda>s c. add_knowledge ord s c (nearby_mines h w board_mines c))
       (MinesweeperAI h w) cs"

text \<open>\<open>grows s t\<close>: every cell of \<open>mines\<close>, \<open>safes\<close> and \<open>moves_made\<close> in \<open>s\<close> is still there in \<open>t\<close>.\<close>

definition grows :: "ai \<Rightarrow> ai \<Rightarrow> bool" where
  "grows s t = (mines s \<subseteq> mines t \<and> safes s \<subseteq> safes t \<and> moves_made s \<subseteq> moves_made t)"

section \<open>Properties\<close>

subsection \<open>Adequacy of the model\<close>

text \<open>
  Iterating over a finite set visits each element once, and every order of visiting is
  the order of some ranking. Where the loops call \<open>list.remove\<close>, the item is in the
  list, so one item is deleted.
\<close>

lemma iterate_visits_each_once:
  "finite S \<Longrightarrow> set (iterate ord S) = S \<and> distinct (iterate ord S)"
  by (simp add: iterate_def)

lemma remove_first_found:
  "x \<in> set xs \<Longrightarrow> P x \<Longrightarrow> Suc (length (remove_first P xs)) = length xs"
  by (induction xs) auto

lemma iterate_any_order:
  assumes d: "distinct xs"
  shows "\<exists>ord. iterate ord (set xs) = xs"
proof -
  define f where "f = (\<lambda>c. THE i. i < length xs \<and> xs ! i = c)"
  have f_nth: "f (xs ! i) = i" if "i < length xs" for i
    unfolding f_def using that d
    by (intro the_equality) (auto simp: nth_eq_iff_index_eq)
  have map_f: "map f xs = [0..<length xs]"
    by (rule nth_equalityI) (simp_all add: f_nth)
  have inj: "inj_on f (set xs)"
    using map_f d by (metis distinct_map distinct_upt)
  let ?ys = "sort_key f (sorted_list_of_set (set xs))"
  have set_ys: "set ?ys = set xs" by simp
  have "sorted (map f ?ys)" by simp
  moreover have "distinct (map f ?ys)"
    using inj set_ys by (simp add: distinct_map)
  moreover have "sorted (map f xs)" "distinct (map f xs)"
    by (simp_all add: map_f)
  moreover have "set (map f ?ys) = set (map f xs)"
    using set_ys by simp
  ultimately have "map f ?ys = map f xs"
    by (rule sorted_distinct_set_unique)
  with inj set_ys have "?ys = xs"
    by (simp add: inj_on_map_eq_map)
  then have "iterate (\<lambda>S. f) (set xs) = xs"
    by (simp add: iterate_def)
  then show ?thesis by blast
qed

subsection \<open>The three sets only grow\<close>

lemma grows_refl: "grows s s"
  by (simp add: grows_def)

lemma grows_trans: "grows s t \<Longrightarrow> grows t u \<Longrightarrow> grows s u"
  unfolding grows_def by blast

lemma grows_kb_remove: "grows s (kb_remove s r)"
  by (simp add: grows_def kb_remove_def)

lemma grows_kb_append: "grows s (kb_append s x)"
  by (simp add: grows_def kb_append_def)

lemma grows_mark_mine_step: "grows s (mark_mine_step c i s)"
  by (simp add: grows_def mark_mine_step_def kb_remove_def Let_def)

lemma grows_mark_safe_step: "grows s (mark_safe_step c i s)"
  by (simp add: grows_def mark_safe_step_def kb_remove_def Let_def)

lemma grows_mark_mine_loop: "grows s (mark_mine_loop c i s)"
proof (induction c i s rule: mark_mine_loop.induct)
  case (1 c i s)
  show ?case
  proof (cases "i < length (knowledge s)")
    case True
    then have "mark_mine_loop c i s = mark_mine_loop c (i + 1) (mark_mine_step c i s)"
      by (simp add: mark_mine_loop.simps [of c i s])
    with "1" [OF True] grows_mark_mine_step [of s c i] show ?thesis
      by (auto intro: grows_trans)
  next
    case False
    then show ?thesis by (simp add: mark_mine_loop.simps [of c i s] grows_refl)
  qed
qed

lemma grows_mark_safe_loop: "grows s (mark_safe_loop c i s)"
proof (induction c i s rule: mark_safe_loop.induct)
  case (1 c i s)
  show ?case
  proof (cases "i < length (knowledge s)")
    case True
    then have "mark_safe_loop c i s = mark_safe_loop c (i + 1) (mark_safe_step c i s)"
      by (simp add: mark_safe_loop.simps [of c i s])
    with "1" [OF True] grows_mark_safe_step [of s c i] show ?thesis
      by (auto intro: grows_trans)
  next
    case False
    then show ?thesis by (simp add: mark_safe_loop.simps [of c i s] grows_refl)
  qed
qed

lemma grows_mark_mine: "grows s (mark_mine s c)"
proof -
  have "grows s (s\<lparr>mines := insert c (mines s)\<rparr>)"
    by (auto simp: grows_def)
  then show ?thesis
    unfolding mark_mine_def by (rule grows_trans) (rule grows_mark_mine_loop)
qed

lemma grows_mark_safe: "grows s (mark_safe s c)"
proof -
  have "grows s (s\<lparr>safes := insert c (safes s)\<rparr>)"
    by (auto simp: grows_def)
  then show ?thesis
    unfolding mark_safe_def by (rule grows_trans) (rule grows_mark_safe_loop)
qed

lemma grows_foldl:
  assumes step: "\<And>s x. grows s (f s x)"
  shows "grows s (foldl f s xs)"
proof (induction xs arbitrary: s)
  case Nil
  show ?case by (simp add: grows_refl)
next
  case (Cons x xs)
  from step [of s x] Cons [of "f s x"] show ?case
    by (simp add: grows_trans)
qed

lemma grows_mark_all_mines: "grows s (mark_all_mines ord s x)"
  unfolding mark_all_mines_def by (rule grows_foldl) (rule grows_mark_mine)

lemma grows_mark_all_safe: "grows s (mark_all_safe ord s x)"
  unfolding mark_all_safe_def by (rule grows_foldl) (rule grows_mark_safe)

lemma grows_resolve_step: "grows s (resolve_step ord i s)"
  by (simp add: resolve_step_def Let_def grows_kb_remove grows_mark_all_safe
      grows_mark_all_mines grows_refl)

lemma grows_resolve_loop: "grows s (resolve_loop ord i s)"
proof (induction ord i s rule: resolve_loop.induct)
  case (1 ord i s)
  show ?case
  proof (cases "i < length (knowledge s)")
    case True
    then have "resolve_loop ord i s = resolve_loop ord (i + 1) (resolve_step ord i s)"
      by (simp add: resolve_loop.simps [of ord i s])
    with "1" [OF True] grows_resolve_step [of s ord i] show ?thesis
      by (auto intro: grows_trans)
  next
    case False
    then show ?thesis by (simp add: resolve_loop.simps [of ord i s] grows_refl)
  qed
qed

lemma grows_infer: "grows s (infer ord s a b)"
  by (simp add: infer_def Let_def grows_mark_all_safe grows_kb_append grows_refl)

lemma grows_combine_step: "grows s (combine_step ord s p)"
  by (simp add: combine_step_def Let_def grows_infer grows_refl)

lemma grows_combine: "grows s (combine ord s)"
  unfolding combine_def by (rule grows_foldl) (rule grows_combine_step)

lemma grows_observe: "grows s (observe s c n)"
proof -
  have "grows s (s\<lparr>moves_made := insert c (moves_made s)\<rparr>)"
    by (auto simp: grows_def)
  then have "grows s (mark_safe (s\<lparr>moves_made := insert c (moves_made s)\<rparr>) c)"
    by (rule grows_trans) (rule grows_mark_safe)
  then show ?thesis
    unfolding observe_def Let_def by (rule grows_trans) (rule grows_kb_append)
qed

lemma grows_add_knowledge: "grows s (add_knowledge ord s c n)"
  unfolding add_knowledge_def resolve_def
  by (blast intro: grows_trans grows_observe grows_resolve_loop grows_combine)

lemma grows_apply_operation: "grows s (apply_operation ord rnd s op)"
  by (cases op)
     (simp_all add: grows_add_knowledge grows_mark_mine grows_mark_safe grows_refl
        make_safe_move_def make_random_move_def)

text \<open>
  Claim C10. The sets \<open>mines\<close>, \<open>safes\<close> and \<open>moves_made\<close> never lose a cell: after any
  session of public operations (\<open>add_knowledge\<close>, \<open>mark_mine\<close>, \<open>mark_safe\<close>,
  \<open>make_safe_move\<close>, \<open>make_random_move\<close>), in any iteration order and with any random
  numbers, each of the three sets contains the set it was before.
\<close>

theorem sets_never_shrink:
  "grows s (session ord rnd s ops)"
  unfolding session_def by (rule grows_foldl) (rule grows_apply_operation)

subsection \<open>\<open>make_safe_move\<close>\<close>

text \<open>
  Claim C8. \<open>make_safe_move\<close> leaves the state as it is; it returns a cell of \<open>safes\<close>
  that is neither in \<open>moves_made\<close> nor in \<open>mines\<close> when there is one, and \<open>None\<close> when
  there is none. (A Python set is finite.)
\<close>

theorem make_safe_move_spec:
  assumes "finite (safes s)"
  shows "snd (make_safe_move ord s) = s \<and>
    (case fst (make_safe_move ord s) of
       Some c \<Rightarrow> c \<in> safes s \<and> c \<notin> moves_made s \<and> c \<notin> mines s
     | None \<Rightarrow> \<not> (\<exists>c. c \<in> safes s \<and> c \<notin> moves_made s \<and> c \<notin> mines s))"
  using iterate_visits_each_once [OF assms, of ord]
  by (auto simp: make_safe_move_def find_Some_iff find_None_iff split: option.splits)

theorem make_safe_move_spec_witness:
  "finite (safes \<lparr>height = 1, width = 2, moves_made = {(0, 0)}, mines = {},
       safes = {(0, 0), (0, 1)}, knowledge = [], heap = []\<rparr>) \<and>
   make_safe_move (\<lambda>S c. 0)
     \<lparr>height = 1, width = 2, moves_made = {(0, 0)}, mines = {},
      safes = {(0, 0), (0, 1)}, knowledge = [], heap = []\<rparr> =
   (Some (0, 1),
     \<lparr>height = 1, width = 2, moves_made = {(0, 0)}, mines = {},
      safes = {(0, 0), (0, 1)}, knowledge = [], heap = []\<rparr>)"
proof -
  let ?s = "\<lparr>height = 1, width = 2, moves_made = {(0, 0)}, mines = {},
      safes = {(0, 0), (0, 1)}, knowledge = [], heap = []\<rparr>"
  have fin: "finite (safes ?s)" by simp
  note spec = make_safe_move_spec [OF fin, of "\<lambda>S c. 0"]
  show ?thesis
  proof (cases "fst (make_safe_move (\<lambda>S c. 0) ?s)")
    case None
    with spec have "\<not> (\<exists>c. c \<in> safes ?s \<and> c \<notin> moves_made ?s \<and> c \<notin> mines ?s)"
      by simp
    moreover have "(0, 1) \<in> safes ?s \<and> (0, 1) \<notin> moves_made ?s \<and> (0, 1) \<notin> mines ?s"
      by simp
    ultimately show ?thesis by blast
  next
    case (Some c)
    with spec have "c \<in> safes ?s \<and> c \<notin> moves_made ?s \<and> c \<notin> mines ?s"
      by (simp del: ai.simps)
    then have "c = (0, 1)" by auto
    with Some have "fst (make_safe_move (\<lambda>S c. 0) ?s) = Some (0, 1)"
      by simp
    moreover from spec have "snd (make_safe_move (\<lambda>S c. 0) ?s) = ?s"
      by simp
    ultimately have "make_safe_move (\<lambda>S c. 0) ?s = (Some (0, 1), ?s)"
      by (metis prod.collapse)
    with fin show ?thesis by simp
  qed
qed

subsection \<open>\<open>make_random_move\<close>\<close>

lemma randint_range:
  "0 < h \<Longrightarrow> \<exists>i. randint 0 (h - 1) x = Inr i \<and> 0 \<le> i \<and> i < h"
  by (simp add: randint_def)

lemma random_loop_exhausted:
  assumes h: "0 < height s" and w: "0 < width s"
    and full: "\<And>i j. 0 \<le> i \<Longrightarrow> i < height s \<Longrightarrow> 0 \<le> j \<Longrightarrow> j < width s \<Longrightarrow>
                 (i, j) \<in> moves_made s \<or> (i, j) \<in> mines s"
  shows "random_loop rnd s n k = (Inr None, k + n)"
proof (induction n arbitrary: k)
  case 0
  show ?case by simp
next
  case (Suc n)
  obtain i where i: "randint 0 (height s - 1) (rnd (2 * k)) = Inr i" "0 \<le> i" "i < height s"
    using randint_range [OF h] by blast
  obtain j where j: "randint 0 (width s - 1) (rnd (2 * k + 1)) = Inr j" "0 \<le> j" "j < width s"
    using randint_range [OF w] by blast
  from full [OF i(2,3) j(2,3)] i(1) j(1) Suc [of "Suc k"] show ?case
    by auto
qed

lemma random_loop_attempts: "snd (random_loop rnd s n k) \<le> k + n"
proof (induction n arbitrary: k)
  case 0
  show ?case by simp
next
  case (Suc n)
  from Suc [of "Suc k"] show ?case
    by (auto split: sum.splits)
qed

lemma random_loop_Some:
  "fst (random_loop rnd s n k) = Inr (Some c) \<Longrightarrow> c \<notin> moves_made s \<and> c \<notin> mines s"
proof (induction n arbitrary: k)
  case 0
  then show ?case by simp
next
  case (Suc n)
  then show ?case
    by (auto split: sum.splits if_splits)
qed

text \<open>
  Claim C9. \<open>make_random_move\<close> makes at most \<open>height * width * 10\<close> attempts and leaves
  the state as it is. A cell it returns is neither in \<open>moves_made\<close> nor in \<open>mines\<close>. On a
  board (height and width at least 1) where every cell is played or a known mine it
  returns \<open>None\<close>, after exactly \<open>height * width * 10\<close> attempts, whatever the random
  numbers are.
\<close>

theorem make_random_move_bounded:
  "random_attempts rnd s \<le> nat (height s * width s * 10) \<and>
   snd (make_random_move rnd s) = s \<and>
   (fst (make_random_move rnd s) = Inr (Some c) \<longrightarrow> c \<notin> moves_made s \<and> c \<notin> mines s) \<and>
   (0 < height s \<and> 0 < width s \<and>
    (\<forall>i j. 0 \<le> i \<and> i < height s \<and> 0 \<le> j \<and> j < width s \<longrightarrow>
       (i, j) \<in> moves_made s \<or> (i, j) \<in> mines s) \<longrightarrow>
    fst (make_random_move rnd s) = Inr None \<and>
    random_attempts rnd s = nat (height s * width s * 10))"
proof -
  let ?n = "nat (height s * width s * 10)"
  have a: "random_attempts rnd s \<le> ?n"
    using random_loop_attempts [of rnd s ?n 0] by (simp add: random_attempts_def)
  have b: "fst (make_random_move rnd s) = Inr (Some c) \<longrightarrow> c \<notin> moves_made s \<and> c \<notin> mines s"
    using random_loop_Some [of rnd s ?n 0 c] by (simp add: make_random_move_def)
  have c: "fst (make_random_move rnd s) = Inr None \<and> random_attempts rnd s = ?n"
    if "0 < height s" "0 < width s"
      "\<forall>i j. 0 \<le> i \<and> i < height s \<and> 0 \<le> j \<and> j < width s \<longrightarrow>
         (i, j) \<in> moves_made s \<or> (i, j) \<in> mines s"
    using random_loop_exhausted [of s rnd ?n 0] that
    by (simp add: make_random_move_def random_attempts_def)
  from a b c show ?thesis
    by (simp add: make_random_move_def)
qed

theorem make_random_move_bounded_witness:
  "fst (make_random_move (\<lambda>k. k)
     \<lparr>height = 1, width = 2, moves_made = {(0, 0)}, mines = {(0, 1)},
      safes = {}, knowledge = [], heap = []\<rparr>) = Inr None \<and>
   random_attempts (\<lambda>k. k)
     \<lparr>height = 1, width = 2, moves_made = {(0, 0)}, mines = {(0, 1)},
      safes = {}, knowledge = [], heap = []\<rparr> = 20 \<and>
   fst (make_random_move (\<lambda>k. k) (MinesweeperAI 1 1)) = Inr (Some (0, 0)) \<and>
   (0, 0) \<notin> moves_made (MinesweeperAI 1 1) \<and> (0, 0) \<notin> mines (MinesweeperAI 1 1)"
proof -
  have full: "\<forall>i j. 0 \<le> i \<and> i < (1::int) \<and> 0 \<le> j \<and> j < (2::int) \<longrightarrow>
      (i, j) \<in> {(0, 0)} \<or> (i, j) \<in> {(0, 1)}"
    by auto
  have some: "fst (make_random_move (\<lambda>k. k) (MinesweeperAI 1 1)) = Inr (Some (0, 0))"
    by code_simp
  from full some
    make_random_move_bounded [of "\<lambda>k. k"
      "\<lparr>height = 1, width = 2, moves_made = {(0, 0)}, mines = {(0, 1)},
        safes = {}, knowledge = [], heap = []\<rparr>" "(0, 0)"]
    make_random_move_bounded [of "\<lambda>k. k" "MinesweeperAI 1 1" "(0, 0)"]
  show ?thesis by simp
qed

subsection \<open>Derived sentences\<close>

text \<open>
  Claim C1. The knowledge base holds \<open>A = {(1,1),(1,2)}\<close> with count 1 and
  \<open>B = {(1,1),(1,2),(1,3)}\<close> with count 2 on the 8 by 8 board, and \<open>add_knowledge\<close> is
  called for the cell \<open>(5,5)\<close> with count 1. The pairwise pass derives \<open>{(1,3)}\<close> with
  count 1 and appends it, but when the call returns \<open>(1,3)\<close> is not in \<open>mines\<close>: the
  pass marks cells only for a derived count of 0.
\<close>

theorem derived_mine_not_marked:
  "kb (add_knowledge ord
        ((MinesweeperAI 8 8)\<lparr>knowledge := [0, 1],
           heap := [Sentence {(1, 1), (1, 2)} 1, Sentence {(1, 1), (1, 2), (1, 3)} 2]\<rparr>)
        (5, 5) 1) =
     [Sentence {(1, 1), (1, 2)} 1,
      Sentence {(1, 1), (1, 2), (1, 3)} 2,
      Sentence {(4, 4), (4, 5), (4, 6), (5, 4), (5, 6), (6, 4), (6, 5), (6, 6)} 1,
      Sentence {(1, 3)} 1] \<and>
   mines (add_knowledge ord
        ((MinesweeperAI 8 8)\<lparr>knowledge := [0, 1],
           heap := [Sentence {(1, 1), (1, 2)} 1, Sentence {(1, 1), (1, 2), (1, 3)} 2]\<rparr>)
        (5, 5) 1) = {}"
  by code_simp

subsection \<open>Games with truthful counts\<close>

text \<open>
  Claim C2. On the 3 by 3 board with mines at \<open>(0,0)\<close>, \<open>(0,1)\<close>, \<open>(1,0)\<close> and \<open>(2,1)\<close> the
  cells \<open>(2,2)\<close>, \<open>(1,2)\<close>, \<open>(1,1)\<close>, \<open>(2,0)\<close> are revealed in this order, each with the
  count the board reports. When the last call returns, the knowledge base holds the
  sentence \<open>{(0,0)}\<close> with count 2, more than its one cell.
\<close>

theorem count_exceeds_cells:
  "kb (play ord 3 3 {(0, 0), (0, 1), (1, 0), (2, 1)} [(2, 2), (1, 2), (1, 1), (2, 0)]) =
     [Sentence {(0, 1), (0, 2)} 1,
      Sentence {(0, 1), (0, 2)} 1,
      Sentence {(0, 0), (0, 1), (0, 2)} 3,
      Sentence {(0, 0)} 2]"
  by code_simp

text \<open>
  Claim C3. On the 1 by 5 board with mines at \<open>(0,1)\<close> and \<open>(0,3)\<close> the cells \<open>(0,0)\<close>,
  \<open>(0,4)\<close>, \<open>(0,2)\<close> are revealed in this order with the counts the board reports (1, 1
  and 2). When the last call returns, the cell \<open>(0,3)\<close> is in \<open>mines\<close> and in \<open>safes\<close>.
\<close>

theorem mine_marked_safe:
  "mines (play ord 1 5 {(0, 1), (0, 3)} [(0, 0), (0, 4), (0, 2)]) = {(0, 1), (0, 3)} \<and>
   safes (play ord 1 5 {(0, 1), (0, 3)} [(0, 0), (0, 4), (0, 2)]) =
     {(0, 0), (0, 2), (0, 3), (0, 4)}"
  by code_simp

text \<open>
  Claim C4. In the same game, before the third reveal the cells \<open>(0,1)\<close> and \<open>(0,3)\<close> are
  known mines. The neighbours of \<open>(0,2)\<close> are \<open>(0,1)\<close> and \<open>(0,3)\<close>, in this order;
  \<open>unknown_neighbors\<close> deletes \<open>(0,1)\<close> and never visits \<open>(0,3)\<close>. The sentence that
  \<open>add_knowledge\<close> appends for \<open>(0,2)\<close> with count 2 is \<open>{(0,3)}\<close> with count 0: its
  count is reduced by both known mines, and it contains a known mine.
\<close>

theorem known_mine_in_new_sentence:
  "mines (play ord 1 5 {(0, 1), (0, 3)} [(0, 0), (0, 4)]) = {(0, 1), (0, 3)} \<and>
   kb (play ord 1 5 {(0, 1), (0, 3)} [(0, 0), (0, 4)]) = [] \<and>
   get_neighbors (play ord 1 5 {(0, 1), (0, 3)} [(0, 0), (0, 4)]) (0, 2) = [(0, 1), (0, 3)] \<and>
   kb (observe (play ord 1 5 {(0, 1), (0, 3)} [(0, 0), (0, 4)]) (0, 2) 2) =
     [Sentence {(0, 3)} 0]"
  by code_simp

text \<open>
  Claim C5. On the 1 by 3 board with a mine at \<open>(0,2)\<close> the cells \<open>(0,1)\<close> and \<open>(0,0)\<close> are
  revealed with the counts the board reports (1 and 0). The second call appends a
  sentence with no cells; the direct-resolution pass deletes the sentence before it from
  the list and so never visits it. When the call returns, the knowledge base is the
  sentence with the empty cell set.
\<close>

theorem empty_sentence_retained:
  "kb (play ord 1 3 {(0, 2)} [(0, 1), (0, 0)]) = [Sentence {} 0]"
  by code_simp

text \<open>
  Claim C6. On the 1 by 4 board with a mine at \<open>(0,3)\<close> the cell \<open>(0,2)\<close> is revealed with
  count 1 and then \<open>(0,1)\<close> with count 0. When the direct-resolution pass of the second
  call starts, the knowledge base holds \<open>{(0,0)}\<close> with count 0. When the call returns,
  that sentence is still the knowledge base and \<open>(0,0)\<close> is not in \<open>safes\<close>.
\<close>

theorem zero_count_sentence_skipped:
  "kb (observe (play ord 1 4 {(0, 3)} [(0, 2)]) (0, 1) 0) =
     [Sentence {(0, 3)} 1, Sentence {(0, 0)} 0] \<and>
   kb (add_knowledge ord (play ord 1 4 {(0, 3)} [(0, 2)]) (0, 1) 0) = [Sentence {(0, 0)} 0] \<and>
   safes (add_knowledge ord (play ord 1 4 {(0, 3)} [(0, 2)]) (0, 1) 0) = {(0, 1), (0, 2)}"
  by code_simp

subsection \<open>Marking a cell twice\<close>

lemma sentence_mark_safe_twice:
  "sentence_mark_safe (sentence_mark_safe x c) c = sentence_mark_safe x c"
  by (simp add: sentence_mark_safe_def)

lemma sentence_mark_mine_twice:
  "sentence_mark_mine (sentence_mark_mine x c) c = sentence_mark_mine x c"
  by (simp add: sentence_mark_mine_def)

text \<open>
  Claim C7. On a \<open>Sentence\<close> the second call of \<open>mark_safe\<close> or \<open>mark_mine\<close> with the same
  cell changes nothing (the two lemmas above). On the AI state it can: on the 1 by 6
  board with mines at \<open>(0,0)\<close> and \<open>(0,3)\<close>, after the cells \<open>(0,2)\<close>, \<open>(0,4)\<close>, \<open>(0,5)\<close>
  were revealed with the counts the board reports, the knowledge base is \<open>{(0,1)}\<close> with
  count 0 followed by a sentence with no cells. One call \<open>mark_safe((0,1))\<close> leaves the
  sentence with no cells in the knowledge base, a second call deletes it.
\<close>

theorem mark_safe_twice_differs:
  "kb (play ord 1 6 {(0, 0), (0, 3)} [(0, 2), (0, 4), (0, 5)]) =
     [Sentence {(0, 1)} 0, Sentence {} 0] \<and>
   kb (mark_safe (play ord 1 6 {(0, 0), (0, 3)} [(0, 2), (0, 4), (0, 5)]) (0, 1)) =
     [Sentence {} 0] \<and>
   kb (mark_safe (mark_safe (play ord 1 6 {(0, 0), (0, 3)} [(0, 2), (0, 4), (0, 5)]) (0, 1))
         (0, 1)) = []"
  by code_simp

end
